theory Spec2Isabelle
  imports Complex_Main "HOL-Library.Word" "HOL-Library.Multiset"
begin

unbundle bit_operations_syntax

section \<open>JavaScript values used by the route module\<close>

text \<open>
  A JavaScript string is a sequence of 16-bit code units. \<open>js_str\<close> embeds an ASCII
  literal. The bitwise operators of the decoder work on 32-bit two's complement integers,
  as in the language. The decoder's coordinates and the provider's durations are kept as
  reals; the arithmetic of the safety score is that of IEEE doubles (next section).
\<close>

type_synonym js_string = "16 word list"

definition js_str :: "string \<Rightarrow> js_string" where
  "js_str s = map of_char s"

text \<open>\<open>charCodeAt\<close>: the code unit at an index, \<open>None\<close> standing for \<open>NaN\<close> (index out of range).\<close>

definition charCodeAt :: "js_string \<Rightarrow> nat \<Rightarrow> int option" where
  "charCodeAt s i = (if i < length s then Some (uint (s ! i)) else None)"

text \<open>\<open>b & 0x1f\<close>: \<open>NaN\<close> converts to the 32-bit integer 0.\<close>

definition and_0x1f :: "int option \<Rightarrow> 32 word" where
  "and_0x1f b = (case b of None \<Rightarrow> 0 | Some v \<Rightarrow> word_of_int v AND 0x1f)"

text \<open>\<open>b >= 0x20\<close>: every comparison with \<open>NaN\<close> is false.\<close>

definition ge_0x20 :: "int option \<Rightarrow> bool" where
  "ge_0x20 b = (case b of None \<Rightarrow> False | Some v \<Rightarrow> 0x20 \<le> v)"

text \<open>\<open>Math.min(...xs)\<close>: \<open>None\<close> stands for \<open>Infinity\<close>, the result on no arguments.\<close>

fun Math_min :: "real list \<Rightarrow> real option" where
  "Math_min [] = None"
| "Math_min (x # xs) = Some (fold min xs x)"

section \<open>JavaScript numbers\<close>

text \<open>
  A JavaScript number is an IEEE 754 double: \<open>NaN\<close>, an infinity, or a finite value.
  \<open>Num x\<close> is the finite double of value \<open>x\<close>; the sign of a zero is not represented.
\<close>

datatype jsnum = NaN | NegInf | Num real | PosInf

text \<open>\<open>floor_log2 n\<close> is the position of the highest bit of \<open>n\<close>.\<close>

function floor_log2 :: "nat \<Rightarrow> nat" where
  "floor_log2 n = (if n < 2 then 0 else Suc (floor_log2 (n div 2)))"
  by pat_completeness auto
termination
  by (relation "measure id") auto

declare floor_log2.simps [simp del]

text \<open>The binary exponent of a positive real: \<open>2 powi exponent x \<le> x < 2 powi (exponent x + 1)\<close>.\<close>

definition exponent :: "real \<Rightarrow> int" where
  "exponent x =
     (if 1 \<le> x then int (floor_log2 (nat \<lfloor>x\<rfloor>))
      else - int (Suc (floor_log2 (nat \<lceil>1 / x\<rceil> - 1))))"

text \<open>The nearest integer, a tie going to the even one.\<close>

definition round_half_even :: "real \<Rightarrow> int" where
  "round_half_even y =
     (let f = \<lfloor>y\<rfloor>; d = y - of_int f
      in if d < 1 / 2 then f else if 1 / 2 < d then f + 1 else if even f then f else f + 1)"

text \<open>
  Rounding of a positive real to the nearest double (53 significant bits, exponents from
  -1022 to 1023, subnormals with the quantum \<open>2 powi (- 1074)\<close>), ties to even; a result
  of \<open>2 ^ 1024\<close> or more is \<open>Infinity\<close>.
\<close>

definition fl_pos :: "real \<Rightarrow> jsnum" where
  "fl_pos x =
     (let e = exponent x in
      if 1024 \<le> e then PosInf
      else (let q = 2 powi (max e (- 1022) - 52);
                m = round_half_even (x / q)
            in if e = 1023 \<and> 2 ^ 53 \<le> m then PosInf else Num (of_int m * q)))"

fun js_neg :: "jsnum \<Rightarrow> jsnum" where
  "js_neg NaN = NaN"
| "js_neg NegInf = PosInf"
| "js_neg (Num x) = Num (- x)"
| "js_neg PosInf = NegInf"

definition fl :: "real \<Rightarrow> jsnum" where
  "fl x = (if x = 0 then Num 0 else if 0 < x then fl_pos x else js_neg (fl_pos (- x)))"

text \<open>A decimal literal of the source denotes the double nearest to it.\<close>

definition js_lit :: "real \<Rightarrow> jsnum" where
  "js_lit x = fl x"

text \<open>The operators \<open>+\<close>, \<open>-\<close>, \<open>*\<close> and \<open>/\<close> on numbers.\<close>

fun js_add :: "jsnum \<Rightarrow> jsnum \<Rightarrow> jsnum" where
  "js_add (Num x) (Num y) = fl (x + y)"
| "js_add NaN b = NaN"
| "js_add a NaN = NaN"
| "js_add PosInf NegInf = NaN"
| "js_add NegInf PosInf = NaN"
| "js_add PosInf b = PosInf"
| "js_add a PosInf = PosInf"
| "js_add NegInf b = NegInf"
| "js_add a NegInf = NegInf"

definition js_sub :: "jsnum \<Rightarrow> jsnum \<Rightarrow> jsnum" where
  "js_sub a b = js_add a (js_neg b)"

text \<open>An infinity times \<open>b\<close>: \<open>NaN\<close> for zero, else the infinity of the product's sign.\<close>

fun inf_times :: "bool \<Rightarrow> jsnum \<Rightarrow> jsnum" where
  "inf_times positive NaN = NaN"
| "inf_times positive (Num y) =
     (if y = 0 then NaN else if (0 < y) = positive then PosInf else NegInf)"
| "inf_times positive PosInf = (if positive then PosInf else NegInf)"
| "inf_times positive NegInf = (if positive then NegInf else PosInf)"

fun js_mul :: "jsnum \<Rightarrow> jsnum \<Rightarrow> jsnum" where
  "js_mul (Num x) (Num y) = fl (x * y)"
| "js_mul NaN b = NaN"
| "js_mul a NaN = NaN"
| "js_mul PosInf b = inf_times True b"
| "js_mul NegInf b = inf_times False b"
| "js_mul a PosInf = inf_times True a"
| "js_mul a NegInf = inf_times False a"

fun js_div :: "jsnum \<Rightarrow> jsnum \<Rightarrow> jsnum" where
  "js_div (Num x) (Num y) =
     (if y = 0 then (if x = 0 then NaN else if 0 < x then PosInf else NegInf)
      else fl (x / y))"
| "js_div NaN b = NaN"
| "js_div a NaN = NaN"
| "js_div (Num x) b = Num 0"
| "js_div PosInf (Num y) = (if 0 \<le> y then PosInf else NegInf)"
| "js_div NegInf (Num y) = (if 0 \<le> y then NegInf else PosInf)"
| "js_div a b = NaN"

text \<open>\<open>a >= b\<close>: false when either side is \<open>NaN\<close>.\<close>

fun js_ge :: "jsnum \<Rightarrow> jsnum \<Rightarrow> bool" where
  "js_ge (Num x) (Num y) = (y \<le> x)"
| "js_ge NaN b = False"
| "js_ge a NaN = False"
| "js_ge PosInf b = True"
| "js_ge a NegInf = True"
| "js_ge a b = False"

text \<open>\<open>Math.min(a, b)\<close> and \<open>Math.max(a, b)\<close>: \<open>NaN\<close> when either argument is.\<close>

fun js_min :: "jsnum \<Rightarrow> jsnum \<Rightarrow> jsnum" where
  "js_min (Num x) (Num y) = Num (min x y)"
| "js_min NaN b = NaN"
| "js_min a NaN = NaN"
| "js_min NegInf b = NegInf"
| "js_min a NegInf = NegInf"
| "js_min PosInf b = b"
| "js_min a PosInf = a"

fun js_max :: "jsnum \<Rightarrow> jsnum \<Rightarrow> jsnum" where
  "js_max (Num x) (Num y) = Num (max x y)"
| "js_max NaN b = NaN"
| "js_max a NaN = NaN"
| "js_max PosInf b = PosInf"
| "js_max a PosInf = PosInf"
| "js_max NegInf b = b"
| "js_max a NegInf = a"

text \<open>\<open>Math.round\<close>: the nearest integer, a tie going towards plus infinity.\<close>

fun Math_round :: "jsnum \<Rightarrow> jsnum" where
  "Math_round (Num x) = Num (of_int \<lfloor>x + 1 / 2\<rfloor>)"
| "Math_round a = a"

section \<open>routes/routes.js: the polyline decoder\<close>

record point =
  lat :: real
  lng :: real

text \<open>
  The inner \<open>do ... while (b >= 0x20)\<close> loop of \<open>decodePolyline\<close>. The shift count of
  \<open><<\<close> is taken modulo 32 and the result is a 32-bit integer. It returns the group's
  value and the index after the group.
\<close>

partial_function (option) read_group ::
  "js_string \<Rightarrow> nat \<Rightarrow> nat \<Rightarrow> 32 word \<Rightarrow> (32 word \<times> nat) option" where
  "read_group encoded index shift result =
     (let b = map_option (\<lambda>c. c - 63) (charCodeAt encoded index);
          index' = index + 1;
          result' = result OR push_bit (shift mod 32) (and_0x1f b);
          shift' = shift + 5
      in if ge_0x20 b then read_group encoded index' shift' result'
         else Some (result', index'))"

declare read_group.simps [code]

text \<open>\<open>(result & 1) ? ~(result >> 1) : (result >> 1)\<close>, read as a signed number.\<close>

definition unzigzag :: "32 word \<Rightarrow> int" where
  "unzigzag result =
     sint (if result AND 1 \<noteq> 0 then NOT (signed_drop_bit 1 result)
           else signed_drop_bit 1 result)"

text \<open>
  The outer \<open>while (index < encoded.length)\<close> loop. The accumulators \<open>lat\<close> and
  \<open>lng\<close> of the source are numbers holding integers, here unbounded integers.
\<close>

partial_function (option) decode_loop ::
  "js_string \<Rightarrow> nat \<Rightarrow> int \<Rightarrow> int \<Rightarrow> point list \<Rightarrow> point list option" where
  "decode_loop encoded index lat_acc lng_acc points =
     (if index < length encoded then
        (case read_group encoded index 0 0 of
           None \<Rightarrow> None
         | Some (result1, index1) \<Rightarrow>
             (let lat' = lat_acc + unzigzag result1 in
              case read_group encoded index1 0 0 of
                None \<Rightarrow> None
              | Some (result2, index2) \<Rightarrow>
                  (let lng' = lng_acc + unzigzag result2 in
                   decode_loop encoded index2 lat' lng'
                     (points @ [\<lparr>lat = of_int lat' / 100000, lng = of_int lng' / 100000\<rparr>]))))
      else Some points)"

declare decode_loop.simps [code]

definition decodePolyline :: "js_string \<Rightarrow> point list option" where
  "decodePolyline encoded = decode_loop encoded 0 0 0 []"

section \<open>models/SafetyReport.js: the report impact model\<close>

datatype severity = low | medium | high | critical

datatype reportType =
    PoorStreetLighting | Harassment | RoadHazard | LackOfPolicePresence
  | SuspiciousActivity | TheftRobbery | UnsafeArea | Other

datatype status = pending | verified | resolved | dismissed

text \<open>
  The fields of a stored report that scoring reads. The schema requires \<open>reportType\<close> and
  checks it against its enum. \<open>severity\<close> is not required: its enum is checked only for a
  value that is present, so a stored report may have none (\<open>None\<close>: \<open>null\<close>, which
  \<open>PATCH /reports/:reportId\<close> can write).
\<close>

record safetyReport =
  reportType :: reportType
  severity :: "severity option"
  status :: status

fun severityWeights :: "severity \<Rightarrow> jsnum" where
  "severityWeights low = js_lit (- 0.5)"
| "severityWeights medium = js_lit (- 1.5)"
| "severityWeights high = js_lit (- 3.0)"
| "severityWeights critical = js_lit (- 5.0)"

fun typeWeights :: "reportType \<Rightarrow> jsnum" where
  "typeWeights PoorStreetLighting = js_lit 1.0"
| "typeWeights Harassment = js_lit 2.5"
| "typeWeights RoadHazard = js_lit 1.5"
| "typeWeights LackOfPolicePresence = js_lit 1.8"
| "typeWeights SuspiciousActivity = js_lit 2.0"
| "typeWeights TheftRobbery = js_lit 3.0"
| "typeWeights UnsafeArea = js_lit 2.5"
| "typeWeights Other = js_lit 1.0"

text \<open>
  \<open>severityWeights[this.severity] * typeWeights[this.reportType]\<close>: the lookup of a missing
  severity is \<open>undefined\<close>, and \<open>undefined\<close> times a number is \<open>NaN\<close>.
\<close>

definition calculateSafetyImpact :: "safetyReport \<Rightarrow> jsnum" where
  "calculateSafetyImpact report =
     (case severity report of
        None \<Rightarrow> NaN
      | Some s \<Rightarrow> js_mul (severityWeights s) (typeWeights (reportType report)))"

text \<open>
  \<open>SafetyReport.findNearby(coordinates, maxDistance)\<close> is a query run by the database;
  the scoring code is modelled for any answer of the store. Coordinates are the pair
  \<open>[lng, lat]\<close>.
\<close>

type_synonym findNearby = "real \<times> real \<Rightarrow> real \<Rightarrow> safetyReport list"

section \<open>routes/routes.js: the safety score of a route\<close>

text \<open>The six keys of the \<open>factors\<close> object, which the code never adds to or removes from.\<close>

datatype factor =
  lighting | policePresence | crimeRate | pedestrianTraffic | roadCondition | communityReports

type_synonym factorSet = "factor \<Rightarrow> jsnum"

record safetyScore =
  overall :: jsnum
  factors :: factorSet

text \<open>\<open>routePoints.filter((_, index) => index % 10 === 0)\<close>\<close>

definition samplePoints :: "point list \<Rightarrow> point list" where
  "samplePoints routePoints =
     map fst (filter (\<lambda>(_, index). index mod 10 = 0) (zip routePoints [0..<length routePoints]))"

text \<open>The initial value of \<open>factors\<close>.\<close>

fun initial_factors :: factorSet where
  "initial_factors lighting = Num 7"
| "initial_factors policePresence = Num 6"
| "initial_factors crimeRate = Num 7"
| "initial_factors pedestrianTraffic = Num 6"
| "initial_factors roadCondition = Num 7"
| "initial_factors communityReports = Num 8"

text \<open>The body of the loop over the sample points, for the reports found near one point.\<close>

definition add_nearbyReports :: "safetyReport list \<Rightarrow> factorSet \<Rightarrow> factorSet" where
  "add_nearbyReports nearbyReports fs =
     (if length nearbyReports > 0 then
        fold (\<lambda>report fs'.
                (let impact = calculateSafetyImpact report
                 in fs'(communityReports :=
                      js_add (fs' communityReports)
                        (js_div impact (Num (real (length nearbyReports)))))))
          nearbyReports fs
      else fs)"

definition check_samplePoints :: "findNearby \<Rightarrow> point list \<Rightarrow> factorSet \<Rightarrow> factorSet" where
  "check_samplePoints findNearby pts fs =
     fold (\<lambda>pt fs'. add_nearbyReports (findNearby (lng pt, lat pt) 500) fs') pts fs"

text \<open>\<open>Object.keys(factors)\<close>, in insertion order, and the loop that clamps each factor.\<close>

definition factor_keys :: "factor list" where
  "factor_keys =
     [lighting, policePresence, crimeRate, pedestrianTraffic, roadCondition, communityReports]"

definition normalize_factors :: "factorSet \<Rightarrow> factorSet" where
  "normalize_factors fs =
     fold (\<lambda>key fs'. fs'(key := js_max (Num 0) (js_min (Num 10) (fs' key)))) factor_keys fs"

text \<open>\<open>Object.entries(weights)\<close> and the loop that adds up \<open>totalScore\<close>.\<close>

definition weights :: "(factor \<times> jsnum) list" where
  "weights =
     [(lighting, js_lit 0.20), (policePresence, js_lit 0.20), (crimeRate, js_lit 0.25),
      (pedestrianTraffic, js_lit 0.15), (roadCondition, js_lit 0.10),
      (communityReports, js_lit 0.10)]"

definition weighted_total :: "factorSet \<Rightarrow> jsnum" where
  "weighted_total fs =
     fold (\<lambda>(factor, weight) totalScore. js_add totalScore (js_mul (fs factor) weight))
       weights (Num 0)"

definition calculateRouteSafetyScore :: "findNearby \<Rightarrow> js_string \<Rightarrow> safetyScore option" where
  "calculateRouteSafetyScore findNearby encoded =
     (case decodePolyline encoded of
        None \<Rightarrow> None
      | Some routePoints \<Rightarrow>
          (let fs = check_samplePoints findNearby (samplePoints routePoints) initial_factors;
               fs = normalize_factors fs;
               totalScore = weighted_total fs
           in Some \<lparr>overall = js_div (Math_round (js_mul totalScore (Num 10))) (Num 10),
                    factors = fs\<rparr>))"



text \<open>
  The weighted sum and its rounding as the specification words them, in the arithmetic
  of the language.
\<close>

definition spec_weighted_sum :: "factorSet \<Rightarrow> jsnum" where
  "spec_weighted_sum fs =
     js_add (js_add (js_add (js_add (js_add
       (js_mul (js_lit 0.20) (fs lighting))
       (js_mul (js_lit 0.20) (fs policePresence)))
       (js_mul (js_lit 0.25) (fs crimeRate)))
       (js_mul (js_lit 0.15) (fs pedestrianTraffic)))
       (js_mul (js_lit 0.10) (fs roadCondition)))
       (js_mul (js_lit 0.10) (fs communityReports))"

definition round_one_decimal :: "jsnum \<Rightarrow> jsnum" where
  "round_one_decimal x = js_div (Math_round (js_mul x (Num 10))) (Num 10)"

text \<open>A store that holds no eligible report.\<close>

definition no_reports :: findNearby where
  "no_reports coordinates maxDistance = []"

section \<open>routes/routes.js: classifying and ranking the alternatives\<close>

datatype routeType = safest | fastest | balanced

text \<open>
  What the handler reads of a route of the directions provider: the first leg
  (\<open>route.legs[0]\<close>) with its distance and duration values, and the overview polyline.
\<close>

record leg =
  distance_value :: real
  duration_value :: real

record routeCandidate =
  leg0 :: leg
  overview_polyline :: js_string

text \<open>The entry of the response for one route (identifier, texts and steps left out).\<close>

record processedRoute =
  routeType :: routeType
  distance_meters :: real
  duration_seconds :: real
  safetyScore :: jsnum
  safetyFactors :: factorSet
  tags :: "string list"
  polyline :: js_string

definition generateRouteTags :: "safetyScore \<Rightarrow> string list" where
  "generateRouteTags score =
     (let tgs = [];
          tgs = (if js_ge (factors score lighting) (Num 7) then tgs @ [''Well-Lit''] else tgs);
          tgs = (if js_ge (factors score policePresence) (Num 7)
                 then tgs @ [''Police Patrolled''] else tgs);
          tgs = (if js_ge (factors score pedestrianTraffic) (Num 6)
                 then tgs @ [''High Traffic''] else tgs);
          tgs = (if js_ge (factors score roadCondition) (Num 7)
                 then tgs @ [''Main Roads''] else tgs)
      in tgs)"

text \<open>Lines 46 to 48 of the handler: the route type of the route at \<open>index\<close>.\<close>

definition determine_routeType ::
  "routeCandidate list \<Rightarrow> nat \<Rightarrow> routeCandidate \<Rightarrow> safetyScore \<Rightarrow> routeType" where
  "determine_routeType routes index route score =
     (let rt = balanced;
          rt = (if index = 0 \<and> js_ge (overall score) (Num 8) then safest else rt);
          rt = (if Some (duration_value (leg0 route))
                     = Math_min (map (\<lambda>r. duration_value (leg0 r)) routes)
                then fastest else rt)
      in rt)"

text \<open>The callback of \<open>routes.map\<close>, without the write to the database.\<close>

definition process_route ::
  "findNearby \<Rightarrow> routeCandidate list \<Rightarrow> routeCandidate \<times> nat \<Rightarrow> processedRoute option" where
  "process_route findNearby routes = (\<lambda>(route, index).
     (case calculateRouteSafetyScore findNearby (overview_polyline route) of
        None \<Rightarrow> None
      | Some score \<Rightarrow>
          Some \<lparr>routeType = determine_routeType routes index route score,
                distance_meters = distance_value (leg0 route),
                duration_seconds = duration_value (leg0 route),
                safetyScore = overall score,
                safetyFactors = factors score,
                tags = generateRouteTags score,
                polyline = overview_polyline route\<rparr>))"

definition process_routes :: "findNearby \<Rightarrow> routeCandidate list \<Rightarrow> processedRoute list option" where
  "process_routes findNearby routes =
     those (map (process_route findNearby routes) (zip routes [0..<length routes]))"

text \<open>
  The sort reads a comparator's result \<open>v\<close> only through its sign, and takes \<open>NaN\<close> as
  zero: this is \<open>v <= 0\<close> in that reading.
\<close>

fun not_after :: "jsnum \<Rightarrow> bool" where
  "not_after NaN = True"
| "not_after NegInf = True"
| "not_after (Num v) = (v \<le> 0)"
| "not_after PosInf = False"

text \<open>
  \<open>Array.prototype.sort\<close> with a comparator is stable (ECMAScript 2019): elements that
  compare equal keep their order. It is modelled by insertion from the right.
\<close>

fun insert_sorted :: "('a \<Rightarrow> 'a \<Rightarrow> jsnum) \<Rightarrow> 'a \<Rightarrow> 'a list \<Rightarrow> 'a list" where
  "insert_sorted cmp x [] = [x]"
| "insert_sorted cmp x (y # ys) =
     (if not_after (cmp x y) then x # y # ys else y # insert_sorted cmp x ys)"

definition Array_sort :: "('a \<Rightarrow> 'a \<Rightarrow> jsnum) \<Rightarrow> 'a list \<Rightarrow> 'a list" where
  "Array_sort cmp xs = foldr (insert_sorted cmp) xs []"

text \<open>
  The comparator of the handler. The durations are those of the provider, kept as reals;
  in the \<open>fastest\<close> branch their difference is taken exactly, since the rounded
  difference of two doubles has the sign of the exact one, which is all the sort reads.
\<close>

definition compare_routes :: "string \<Rightarrow> processedRoute \<Rightarrow> processedRoute \<Rightarrow> jsnum" where
  "compare_routes routePreference a b =
     (if routePreference = ''safest'' then js_sub (safetyScore b) (safetyScore a)
      else if routePreference = ''fastest'' then Num (duration_seconds a - duration_seconds b)
      else (let scoreA = js_add (js_mul (safetyScore a) (js_lit 0.6))
                           (js_mul (js_mul (js_div (Num 1) (Num (duration_seconds a)))
                              (Num 10000)) (js_lit 0.4));
                scoreB = js_add (js_mul (safetyScore b) (js_lit 0.6))
                           (js_mul (js_mul (js_div (Num 1) (Num (duration_seconds b)))
                              (Num 10000)) (js_lit 0.4))
            in js_sub scoreB scoreA))"

definition sort_routes :: "string \<Rightarrow> processedRoute list \<Rightarrow> processedRoute list" where
  "sort_routes routePreference processedRoutes =
     Array_sort (compare_routes routePreference) processedRoutes"

text \<open>
  A string ends in the middle of a group when its last code unit carries the continuation
  bit: \<open>b = code - 63\<close> is at least \<open>0x20\<close> and no code unit follows.
\<close>

definition ends_mid_group :: "js_string \<Rightarrow> bool" where
  "ends_mid_group encoded = (encoded \<noteq> [] \<and> 0x20 \<le> uint (last encoded) - 63)"

section \<open>The polyline encoder of the specification\<close>

text \<open>
  Modelled from the spec: the GeoPoint of the data model (latitude in [-90, 90], longitude
  in [-180, 180]) whose coordinates are rounded to 1e-5 degrees, that is, whole numbers
  when scaled by 1e5.
\<close>

definition GeoPoint_1e5 :: "point \<Rightarrow> bool" where
  "GeoPoint_1e5 p \<longleftrightarrow>
     - 90 \<le> lat p \<and> lat p \<le> 90 \<and> - 180 \<le> lng p \<and> lng p \<le> 180
     \<and> of_int (round (lat p * 100000)) = lat p * 100000
     \<and> of_int (round (lng p * 100000)) = lng p * 100000"

text \<open>
  Modelled from the spec: the repository has no polyline encoder; the specification
  describes \<open>encode\<close> as the exact inverse of the decoder's scheme. This is the
  zig-zag sign encoding of a delta: \<open>d << 1\<close>, inverted bitwise for a negative delta.
\<close>

definition zigzag :: "int \<Rightarrow> nat" where
  "zigzag d = (if d < 0 then nat (- 2 * d - 1) else nat (2 * d))"

text \<open>
  Modelled from the spec: the 5-bit groups of a value, lowest group first, each with the
  continuation bit 0x20 except the last, and each offset by 63.
\<close>

function encode_groups :: "nat \<Rightarrow> nat list" where
  "encode_groups v =
     (if 0x20 \<le> v then (0x20 + v mod 0x20 + 63) # encode_groups (v div 0x20)
      else [v + 63])"
  by pat_completeness auto
termination
  by (relation "measure id") auto

declare encode_groups.simps [simp del]

text \<open>Modelled from the spec: the code units of one signed delta.\<close>

definition encode_value :: "int \<Rightarrow> js_string" where
  "encode_value d = map of_nat (encode_groups (zigzag d))"

text \<open>
  Modelled from the spec: each point is scaled by 1e5 (fixed point) and written as the
  deltas of its latitude and longitude to the point before it, the first to (0, 0).
\<close>

fun encode_from :: "int \<Rightarrow> int \<Rightarrow> point list \<Rightarrow> js_string" where
  "encode_from plat plng [] = []"
| "encode_from plat plng (p # ps) =
     (let ilat = round (lat p * 100000); ilng = round (lng p * 100000)
      in encode_value (ilat - plat) @ encode_value (ilng - plng) @ encode_from ilat ilng ps)"

text \<open>Modelled from the spec: \<open>encode(points) -> string\<close> of the Polyline Codec.\<close>

definition encode :: "point list \<Rightarrow> js_string" where
  "encode pts = encode_from 0 0 pts"

section \<open>Example data\<close>

text \<open>A store whose only reports are found at one place.\<close>

definition reports_only_at :: "real \<times> real \<Rightarrow> safetyReport list \<Rightarrow> findNearby" where
  "reports_only_at place reports coordinates maxDistance =
     (if coordinates = place then reports else [])"

definition robbery_report :: safetyReport where
  "robbery_report =
     \<lparr>reportType = TheftRobbery, severity = Some critical, status = verified\<rparr>"

text \<open>A stored report whose severity was set to \<open>null\<close>.\<close>

definition unrated_report :: safetyReport where
  "unrated_report = \<lparr>reportType = TheftRobbery, severity = None, status = pending\<rparr>"

text \<open>Three alternatives of the provider, the first two with the same, shortest duration.\<close>

definition tie_routes :: "routeCandidate list" where
  "tie_routes =
     [\<lparr>leg0 = \<lparr>distance_value = 900, duration_value = 500\<rparr>,
       overview_polyline = js_str ''_p~iF~ps|U''\<rparr>,
      \<lparr>leg0 = \<lparr>distance_value = 800, duration_value = 500\<rparr>,
       overview_polyline = js_str ''_p~iF~ps|U_ulLnnqC''\<rparr>,
      \<lparr>leg0 = \<lparr>distance_value = 700, duration_value = 600\<rparr>,
       overview_polyline = js_str ''''\<rparr>]"

text \<open>Three processed routes that differ in distance, with durations 600, 500 and 500.\<close>

definition scored_route :: "real \<Rightarrow> real \<Rightarrow> processedRoute" where
  "scored_route meters seconds =
     \<lparr>routeType = balanced, distance_meters = meters, duration_seconds = seconds,
      safetyScore = js_lit 6.8, safetyFactors = initial_factors, tags = [], polyline = []\<rparr>"

section \<open>Termination of the decoder\<close>

lemma read_group_returns:
  "\<exists>result' index'. read_group encoded index shift result = Some (result', index')
      \<and> index < index'"
proof (induction "length encoded - index" arbitrary: index shift result rule: less_induct)
  case less
  show ?case
  proof (cases "ge_0x20 (map_option (\<lambda>c. c - 63) (charCodeAt encoded index))")
    case True
    then have in_range: "index < length encoded"
      by (auto simp: ge_0x20_def charCodeAt_def split: if_splits)
    then have "length encoded - (index + 1) < length encoded - index"
      by simp
    from less [OF this] obtain r j where
      "read_group encoded (index + 1) (shift + 5)
         (result OR push_bit (shift mod 32)
            (and_0x1f (map_option (\<lambda>c. c - 63) (charCodeAt encoded index)))) = Some (r, j)"
      and "index + 1 < j"
      by blast
    with True show ?thesis
      by (subst read_group.simps) (simp add: Let_def)
  next
    case False
    then show ?thesis
      by (subst read_group.simps) (simp add: Let_def)
  qed
qed

lemma decode_loop_returns:
  "\<exists>pts. decode_loop encoded index lat_acc lng_acc points = Some pts"
proof (induction "length encoded - index" arbitrary: index lat_acc lng_acc points rule: less_induct)
  case less
  show ?case
  proof (cases "index < length encoded")
    case True
    obtain r1 i1 where g1: "read_group encoded index 0 0 = Some (r1, i1)" and "index < i1"
      using read_group_returns by blast
    obtain r2 i2 where g2: "read_group encoded i1 0 0 = Some (r2, i2)" and "i1 < i2"
      using read_group_returns by blast
    have "length encoded - i2 < length encoded - index"
      using True \<open>index < i1\<close> \<open>i1 < i2\<close> by linarith
    from less [OF this] show ?thesis
      using True g1 g2 by (subst decode_loop.simps) (simp add: Let_def)
  next
    case False
    then show ?thesis
      by (subst decode_loop.simps) simp
  qed
qed

lemma decodePolyline_returns: "\<exists>pts. decodePolyline encoded = Some pts"
  unfolding decodePolyline_def by (rule decode_loop_returns)

lemma charCodeAt_append_zero_group:
  "map_option (\<lambda>c. c - 63) (charCodeAt (encoded @ [63]) index) =
     (if index = length encoded then Some 0
      else map_option (\<lambda>c. c - 63) (charCodeAt encoded index))"
  by (simp add: charCodeAt_def nth_append)

lemma read_group_append_zero_group:
  "read_group (encoded @ [63]) index shift result = read_group encoded index shift result"
proof (induction "length encoded - index" arbitrary: index shift result rule: less_induct)
  case less
  let ?b = "map_option (\<lambda>c. c - 63) (charCodeAt encoded index)"
  show ?case
  proof (cases "index < length encoded")
    case True
    then have b: "map_option (\<lambda>c. c - 63) (charCodeAt (encoded @ [63]) index) = ?b"
      by (simp add: charCodeAt_append_zero_group)
    from True have "length encoded - (index + 1) < length encoded - index" by simp
    note IH = less [OF this]
    show ?thesis
      using IH by (subst read_group.simps, subst (2) read_group.simps) (simp add: b Let_def)
  next
    case False
    then have b1: "?b = None"
      by (simp add: charCodeAt_def)
    have b2: "map_option (\<lambda>c. c - 63) (charCodeAt (encoded @ [63]) index) =
        (if index = length encoded then Some 0 else None)"
      by (simp only: charCodeAt_append_zero_group b1)
    show ?thesis
      by (subst read_group.simps, subst (2) read_group.simps)
         (simp add: b1 b2 Let_def and_0x1f_def ge_0x20_def)
  qed
qed

lemma read_group_not_at_end:
  assumes "ends_mid_group encoded" "index \<noteq> length encoded"
    and "read_group encoded index shift result = Some (result', index')"
  shows "index' \<noteq> length encoded"
  using assms(2,3)
proof (induction "length encoded - index" arbitrary: index shift result rule: less_induct)
  case less
  let ?b = "map_option (\<lambda>c. c - 63) (charCodeAt encoded index)"
  show ?case
  proof (cases "ge_0x20 ?b")
    case True
    then have in_range: "index < length encoded"
      by (auto simp: ge_0x20_def charCodeAt_def split: if_splits)
    show ?thesis
    proof (cases "index + 1 = length encoded")
      case True
      then have "read_group encoded (index + 1) (shift + 5)
          (result OR push_bit (shift mod 32) (and_0x1f ?b)) = 
          Some (result OR push_bit (shift mod 32) (and_0x1f ?b), index + 2)"
        by (subst read_group.simps) (simp add: charCodeAt_def Let_def and_0x1f_def ge_0x20_def)
      with \<open>ge_0x20 ?b\<close> less.prems(2) have "index' = index + 2"
        by (subst (asm) read_group.simps) (simp add: Let_def)
      with True show ?thesis by simp
    next
      case False
      from in_range have "length encoded - (index + 1) < length encoded - index" by simp
      from less.hyps [OF this False] \<open>ge_0x20 ?b\<close> less.prems(2) show ?thesis
        by (subst (asm) read_group.simps) (simp add: Let_def)
    qed
  next
    case False
    with less.prems(2) have idx: "index' = index + 1"
      by (subst (asm) read_group.simps) (simp add: Let_def)
    have "index + 1 \<noteq> length encoded"
    proof
      assume e: "index + 1 = length encoded"
      then have "encoded ! index = last encoded"
        by (metis add_diff_cancel_right' last_conv_nth length_0_conv add_is_0 zero_neq_one)
      with assms(1) e have "ge_0x20 ?b"
        by (simp add: ends_mid_group_def ge_0x20_def charCodeAt_def)
      with False show False by simp
    qed
    with idx show ?thesis by simp
  qed
qed

lemma decode_loop_append_zero_group:
  assumes "ends_mid_group encoded" "index \<noteq> length encoded"
  shows "decode_loop (encoded @ [63]) index lat_acc lng_acc points =
         decode_loop encoded index lat_acc lng_acc points"
  using assms(2)
proof (induction "Suc (length encoded) - index" arbitrary: index lat_acc lng_acc points rule: less_induct)
  case less
  show ?case
  proof (cases "index < length encoded")
    case True
    obtain r1 i1 where g1: "read_group encoded index 0 0 = Some (r1, i1)" and "index < i1"
      using read_group_returns by blast
    obtain r2 i2 where g2: "read_group encoded i1 0 0 = Some (r2, i2)" and "i1 < i2"
      using read_group_returns by blast
    have n1: "i1 \<noteq> length encoded"
      using read_group_not_at_end [OF assms(1) less.prems g1] .
    have n2: "i2 \<noteq> length encoded"
      using read_group_not_at_end [OF assms(1) n1 g2] .
    have "Suc (length encoded) - i2 < Suc (length encoded) - index"
      using True \<open>index < i1\<close> \<open>i1 < i2\<close> by linarith
    note IH = less.hyps [OF this n2]
    show ?thesis
      using True g1 g2
      by (subst decode_loop.simps, subst (2) decode_loop.simps)
         (simp add: read_group_append_zero_group IH Let_def)
  next
    case False
    with less.prems have "length encoded < index" by simp
    then show ?thesis
      by (subst decode_loop.simps, subst (2) decode_loop.simps) simp
  qed
qed

lemma read_group_past_end:
  "read_group encoded (length encoded + k) shift result = Some (result, length encoded + k + 1)"
  by (subst read_group.simps) (simp add: charCodeAt_def and_0x1f_def ge_0x20_def Let_def)

section \<open>Rounding to doubles: auxiliary facts\<close>

lemma floor_log2_bounds:
  "0 < n \<Longrightarrow> 2 ^ floor_log2 n \<le> n \<and> n < 2 ^ Suc (floor_log2 n)"
proof (induction n rule: floor_log2.induct)
  case (1 n)
  show ?case
  proof (cases "n < 2")
    case True
    with "1.prems" have "n = 1" by simp
    then show ?thesis
      by (simp add: floor_log2.simps)
  next
    case False
    then have "0 < n div 2" by simp
    with "1.IH" False have IH: "2 ^ floor_log2 (n div 2) \<le> n div 2"
      "n div 2 < 2 ^ Suc (floor_log2 (n div 2))" by simp_all
    have fl: "floor_log2 n = Suc (floor_log2 (n div 2))"
      using False by (subst floor_log2.simps) simp
    from IH(1) have "2 * 2 ^ floor_log2 (n div 2) \<le> n" by linarith
    moreover from IH(2) have "n < 2 * 2 ^ Suc (floor_log2 (n div 2))" by linarith
    ultimately show ?thesis
      by (simp add: fl)
  qed
qed


lemma powi_neg_nat: "(2::real) powi (- int c) = 1 / 2 ^ c"
  by (simp add: power_int_minus_divide)

lemma exponent_bounds:
  assumes "0 < x"
  shows "2 powi exponent x \<le> x" "x < 2 powi (exponent x + 1)"
proof -
  have "2 powi exponent x \<le> x \<and> x < 2 powi (exponent x + 1)"
  proof (cases "1 \<le> x")
    case True
    let ?n = "nat \<lfloor>x\<rfloor>"
    let ?k = "floor_log2 ?n"
    from True have n: "0 < ?n" by simp
    have e: "exponent x = int ?k"
      using True by (simp add: exponent_def)
    have rn: "real ?n = of_int \<lfloor>x\<rfloor>"
      using True by simp
    have nx: "real ?n \<le> x" "x < real ?n + 1"
      unfolding rn by linarith+
    from floor_log2_bounds [OF n] have "(2::real) ^ ?k \<le> real ?n" "real ?n + 1 \<le> 2 ^ Suc ?k"
      by (metis of_nat_le_iff of_nat_numeral of_nat_power, metis Suc_leI of_nat_Suc of_nat_le_iff of_nat_numeral of_nat_power add.commute plus_1_eq_Suc)
    with nx have "(2::real) ^ ?k \<le> x" "x < 2 ^ Suc ?k"
      by linarith+
    moreover have "(2::real) powi (int ?k + 1) = 2 ^ Suc ?k"
      by (metis of_nat_Suc power_int_of_nat add.commute)
    ultimately show ?thesis
      by (simp add: e)
  next
    case False
    let ?y = "1 / x"
    let ?n = "nat \<lceil>?y\<rceil>"
    let ?k = "floor_log2 (?n - 1)"
    from False assms have y: "1 < ?y" by simp
    then have c2: "2 \<le> \<lceil>?y\<rceil>" by linarith
    then have n1: "0 < ?n - 1" by simp
    have e: "exponent x = - int (Suc ?k)"
      using False by (simp add: exponent_def)
    from c2 have n2: "1 \<le> ?n" by linarith
    have rn1: "real ?n = of_int \<lceil>?y\<rceil>"
      using c2 by (intro of_nat_nat) linarith
    have "real (?n - 1) = real ?n - 1"
      using n2 by (simp only: of_nat_diff of_nat_1)
    with rn1 have rn: "real ?n = of_int \<lceil>?y\<rceil>" "real (?n - 1) = of_int \<lceil>?y\<rceil> - 1"
      by simp_all
    have ny: "real (?n - 1) < ?y" "?y \<le> real ?n"
      unfolding rn by linarith+
    from floor_log2_bounds [OF n1] have "2 ^ ?k \<le> ?n - 1" "?n \<le> 2 ^ Suc ?k"
      by linarith+
    then have "(2::real) ^ ?k \<le> real (?n - 1)" "real ?n \<le> 2 ^ Suc ?k"
      by (metis of_nat_le_iff of_nat_numeral of_nat_power)+
    with ny have b: "(2::real) ^ ?k < ?y" "?y \<le> 2 ^ Suc ?k"
      by linarith+
    from b(2) assms have "1 / 2 ^ Suc ?k \<le> x"
      by (simp add: field_simps)
    moreover from b(1) assms have "x < 1 / 2 ^ ?k"
      by (simp add: field_simps)
    moreover have "(2::real) powi (- int (Suc ?k) + 1) = 1 / 2 ^ ?k"
      using powi_neg_nat [of ?k] by simp
    ultimately show ?thesis
      unfolding e powi_neg_nat by simp
  qed
  then show "2 powi exponent x \<le> x" "x < 2 powi (exponent x + 1)"
    by simp_all
qed

lemma exponent_unique:
  assumes "0 < x" "2 powi k \<le> x" "x < 2 powi (k + 1)"
  shows "exponent x = k"
proof (rule antisym)
  show "exponent x \<le> k"
  proof (rule ccontr)
    assume "\<not> exponent x \<le> k"
    then have "k + 1 \<le> exponent x" by simp
    then have "(2::real) powi (k + 1) \<le> 2 powi exponent x"
      by (intro power_int_increasing) simp_all
    with exponent_bounds(1) [OF assms(1)] assms(3) show False by linarith
  qed
  show "k \<le> exponent x"
  proof (rule ccontr)
    assume "\<not> k \<le> exponent x"
    then have "exponent x + 1 \<le> k" by simp
    then have "(2::real) powi (exponent x + 1) \<le> 2 powi k"
      by (intro power_int_increasing) simp_all
    with exponent_bounds(2) [OF assms(1)] assms(2) show False by linarith
  qed
qed


lemma round_half_even_of_int: "round_half_even (of_int m) = m"
  by (simp add: round_half_even_def)

lemma round_half_even_ge: "of_int k \<le> y \<Longrightarrow> k \<le> round_half_even y"
proof -
  assume "of_int k \<le> y"
  then have "k \<le> \<lfloor>y\<rfloor>" by (simp add: le_floor_iff)
  then show ?thesis
    by (simp add: round_half_even_def Let_def)
qed

lemma round_half_even_le: "y \<le> of_int k \<Longrightarrow> round_half_even y \<le> k"
proof (cases "y = of_int k")
  case True
  then show ?thesis by (simp add: round_half_even_of_int)
next
  case False
  assume "y \<le> of_int k"
  with False have "y < of_int k" by simp
  then have "\<lfloor>y\<rfloor> < k" by (simp add: floor_less_iff)
  then show ?thesis
    by (simp add: round_half_even_def Let_def)
qed

lemma powi2_add: "(2::real) powi a * 2 powi b = 2 powi (a + b)"
  by (simp add: power_int_add)

lemma powi2_52: "(2::real) powi 52 = 2 ^ 52" and powi2_53: "(2::real) powi 53 = 2 ^ 53"
  by simp_all

lemma fl_pos_grid_normal:
  assumes m: "2 ^ 52 \<le> m" "m < 2 ^ 53" and ec: "- 1022 \<le> ec" "ec \<le> 1023"
  shows "fl_pos (of_int m * 2 powi (ec - 52)) = Num (of_int m * 2 powi (ec - 52))"
proof -
  let ?q = "(2::real) powi (ec - 52)"
  let ?r = "of_int m * ?q"
  have q: "0 < ?q" by simp
  from m(1) have m0: "0 < m" by simp
  then have r: "0 < ?r" using q by simp
  have "(2::real) powi 52 \<le> of_int m" "of_int m < (2::real) powi 53"
    using m by simp_all
  then have "2 powi 52 * ?q \<le> ?r" "?r < 2 powi 53 * ?q"
    using q by (simp_all only: mult_le_cancel_right_pos mult_less_cancel_right_pos)
  moreover have "(2::real) powi 52 * ?q = 2 powi ec"
    using powi2_add [of 52 "ec - 52"] by simp
  moreover have "(2::real) powi 53 * ?q = 2 powi (ec + 1)"
    using powi2_add [of 53 "ec - 52"] by (simp add: algebra_simps)
  ultimately have "2 powi ec \<le> ?r" "?r < 2 powi (ec + 1)"
    by (simp_all only:)
  from exponent_unique [OF r this] have e: "exponent ?r = ec" .
  have mx: "max ec (- 1022) = ec" using ec(1) by simp
  have d: "?r / ?q = of_int m" using q by simp
  show ?thesis
    using ec(2) m(2)
    by (simp only: fl_pos_def Let_def e mx d round_half_even_of_int) simp
qed


lemma fl_pos_grid_subnormal:
  assumes m: "0 < m" "m < 2 ^ 52"
  shows "fl_pos (of_int m * 2 powi (- 1074)) = Num (of_int m * 2 powi (- 1074))"
proof -
  let ?q = "(2::real) powi (- 1074)"
  let ?r = "of_int m * ?q"
  have q: "0 < ?q" by simp
  from m(1) have r: "0 < ?r" using q by simp
  have "of_int m < (2::real) powi 52"
    using m by simp
  then have "?r < 2 powi 52 * ?q"
    using q by (simp only: mult_less_cancel_right_pos)
  moreover have "(2::real) powi 52 * ?q = 2 powi (- 1022)"
    using powi2_add [of 52 "- 1074"] by simp
  ultimately have "?r < 2 powi (- 1022)"
    by (simp only:)
  with exponent_bounds(1) [OF r] have "(2::real) powi exponent ?r < 2 powi (- 1022)"
    by linarith
  have e: "exponent ?r < - 1022"
  proof (rule ccontr)
    assume "\<not> exponent ?r < - 1022"
    then have "(2::real) powi (- 1022) \<le> 2 powi exponent ?r"
      by (intro power_int_increasing) simp_all
    with \<open>(2::real) powi exponent ?r < 2 powi (- 1022)\<close> show False by linarith
  qed
  then have mx: "max (exponent ?r) (- 1022) - 52 = - 1074" by simp
  have d: "?r / ?q = of_int m" using q by simp
  from e have c: "\<not> 1024 \<le> exponent ?r" "\<not> (exponent ?r = 1023 \<and> 2 ^ 53 \<le> m)"
    by simp_all
  show ?thesis
    by (simp only: fl_pos_def Let_def mx d round_half_even_of_int c if_False)
qed

lemma fl_pos_idem:
  assumes x: "0 < x" and r: "fl_pos x = Num r"
  shows "r = 0 \<or> (0 < r \<and> fl_pos r = Num r)"
proof -
  define e where "e = exponent x"
  define ec where "ec = max e (- 1022)"
  define q where "q = (2::real) powi (ec - 52)"
  define m where "m = round_half_even (x / q)"
  have q: "0 < q" by (simp add: q_def)
  from r have no: "e < 1024" "\<not> (e = 1023 \<and> 2 ^ 53 \<le> m)" and rm: "r = of_int m * q"
    by (simp_all add: fl_pos_def Let_def e_def [symmetric] ec_def [symmetric] q_def [symmetric]
        m_def [symmetric] split: if_splits)
  have ec: "- 1022 \<le> ec" "ec \<le> 1023" "e \<le> ec"
    using no(1) by (simp_all add: ec_def)
  have xb: "2 powi e \<le> x" "x < 2 powi (e + 1)"
    using exponent_bounds [OF x] by (simp_all add: e_def)
  have "x < 2 powi (ec + 1)"
  proof -
    have "(2::real) powi (e + 1) \<le> 2 powi (ec + 1)"
      using ec(3) by (intro power_int_increasing) simp_all
    with xb(2) show ?thesis by linarith
  qed
  moreover have "(2::real) powi 53 * q = 2 powi (ec + 1)"
    unfolding q_def using powi2_add [of 53 "ec - 52"] by (simp add: algebra_simps)
  ultimately have "x < 2 powi 53 * q" by (simp only:)
  then have "x / q < 2 powi 53"
    using q by (simp add: field_simps)
  then have "x / q \<le> of_int (2 ^ 53)" by simp
  then have m53: "m \<le> 2 ^ 53"
    unfolding m_def by (rule round_half_even_le)
  have "of_int 0 \<le> x / q" using x q by simp
  then have m0: "0 \<le> m"
    unfolding m_def by (rule round_half_even_ge)
  show ?thesis
  proof (cases "m = 0")
    case True
    with rm show ?thesis by simp
  next
    case False
    with m0 have mpos: "0 < m" by simp
    with q rm have rpos: "0 < r" by simp
    have "fl_pos r = Num r"
    proof (cases "- 1022 \<le> e")
      case True
      then have ece: "ec = e" by (simp add: ec_def)
      have "(2::real) powi 52 * q = 2 powi e"
        unfolding q_def ece using powi2_add [of 52 "e - 52"] by simp
      with xb(1) have "2 powi 52 * q \<le> x" by (simp only:)
      then have "2 powi 52 \<le> x / q"
        using q by (simp add: field_simps)
      then have "of_int (2 ^ 52) \<le> x / q" by simp
      then have m52: "2 ^ 52 \<le> m"
        unfolding m_def by (rule round_half_even_ge)
      show ?thesis
      proof (cases "m < 2 ^ 53")
        case True
        from fl_pos_grid_normal [OF m52 True ec(1,2)] show ?thesis
          by (simp add: rm q_def)
      next
        case False
        with m53 have meq: "m = 2 ^ 53" by simp
        with no(2) ece ec(2) have e1022: "ec + 1 \<le> 1023" by simp
        have "r = of_int (2 ^ 52) * 2 powi ((ec + 1) - 52)"
          unfolding rm meq q_def using powi2_add [of 1 "ec - 52"] by (simp add: algebra_simps)
        moreover have "fl_pos (of_int (2 ^ 52) * 2 powi ((ec + 1) - 52))
            = Num (of_int (2 ^ 52) * 2 powi ((ec + 1) - 52))"
          using ec(1) e1022 by (intro fl_pos_grid_normal) simp_all
        ultimately show ?thesis by (simp only:)
      qed
    next
      case False
      then have ece: "ec = - 1022" by (simp add: ec_def)
      then have qe: "q = 2 powi (- 1074)" by (simp add: q_def)
      have "(2::real) powi (e + 1) \<le> 2 powi (- 1022)"
        using False by (intro power_int_increasing) simp_all
      with xb(2) have "x < 2 powi (- 1022)" by linarith
      moreover have "(2::real) powi 52 * q = 2 powi (- 1022)"
        unfolding qe using powi2_add [of 52 "- 1074"] by simp
      ultimately have "x < 2 powi 52 * q" by (simp only:)
      then have "x / q < 2 powi 52"
        using q by (simp add: field_simps)
      then have "x / q \<le> of_int (2 ^ 52)" by simp
      then have m52: "m \<le> 2 ^ 52"
        unfolding m_def by (rule round_half_even_le)
      show ?thesis
      proof (cases "m < 2 ^ 52")
        case True
        from fl_pos_grid_subnormal [OF mpos True] show ?thesis
          by (simp add: rm qe)
      next
        case False
        with m52 have meq: "m = 2 ^ 52" by simp
        have "fl_pos (of_int (2 ^ 52) * 2 powi (- 1022 - 52))
            = Num (of_int (2 ^ 52) * 2 powi (- 1022 - 52))"
          by (intro fl_pos_grid_normal) simp_all
        then show ?thesis
          by (simp add: rm qe meq)
      qed
    qed
    with rpos show ?thesis by simp
  qed
qed

lemma fl_idem: "fl x = Num r \<Longrightarrow> fl r = Num r"
proof -
  assume a: "fl x = Num r"
  consider "x = 0" | "0 < x" | "x < 0" by linarith
  then show ?thesis
  proof cases
    case 1
    with a show ?thesis by (simp add: fl_def)
  next
    case 2
    with a have "fl_pos x = Num r" by (simp add: fl_def)
    from fl_pos_idem [OF 2 this] show ?thesis
      by (auto simp: fl_def)
  next
    case 3
    then have p: "0 < - x" by simp
    from 3 a have "js_neg (fl_pos (- x)) = Num r" by (simp add: fl_def)
    then have "fl_pos (- x) = Num (- r)"
      by (cases "fl_pos (- x)") simp_all
    from fl_pos_idem [OF p this] show ?thesis
      by (auto simp: fl_def)
  qed
qed

section \<open>Scoring, classification and ranking: auxiliary facts\<close>

lemmas fl_eval = js_lit_def fl_def fl_pos_def exponent_def floor_log2.simps round_half_even_def Let_def

lemma fl_not_NaN: "fl x \<noteq> NaN"
  by (cases "fl_pos x"; cases "fl_pos (- x)")
     (auto simp: fl_def fl_pos_def Let_def split: if_splits)

lemma js_mul_commute: "js_mul a b = js_mul b a"
  by (cases a; cases b) (simp_all add: mult.commute)

lemma js_mul_Num_cases:
  assumes "js_mul a b = Num r"
  shows "fl r = Num r"
proof (cases a)
  case (Num x)
  show ?thesis
  proof (cases b)
    case (Num y)
    with \<open>a = Num x\<close> assms have "fl (x * y) = Num r" by simp
    then show ?thesis by (rule fl_idem)
  qed (use Num assms in \<open>simp_all split: if_splits\<close>)
next
  case NaN
  with assms show ?thesis by simp
next
  case NegInf
  with assms show ?thesis by (cases b) (simp_all split: if_splits)
next
  case PosInf
  with assms show ?thesis by (cases b) (simp_all split: if_splits)
qed

lemma js_add_zero_mul: "js_add (Num 0) (js_mul a b) = js_mul a b"
proof (cases "js_mul a b")
  case (Num r)
  from js_mul_Num_cases [OF this] Num show ?thesis by simp
qed simp_all

lemma js_add_NaN_right: "js_add a NaN = NaN"
  by (cases a) simp_all

lemma js_mul_NaN_right: "js_mul a NaN = NaN"
  by (cases a) simp_all

lemma fold_communityReports_frame:
  "k \<noteq> communityReports \<Longrightarrow>
   fold (\<lambda>report fs'. fs'(communityReports :=
           js_add (fs' communityReports) (js_div (calculateSafetyImpact report) n))) reports fs k
     = fs k"
  by (induction reports arbitrary: fs) simp_all

lemma add_nearbyReports_frame:
  "k \<noteq> communityReports \<Longrightarrow> add_nearbyReports nearbyReports fs k = fs k"
  by (simp add: add_nearbyReports_def Let_def fold_communityReports_frame)

lemma check_samplePoints_frame:
  "k \<noteq> communityReports \<Longrightarrow> check_samplePoints findNearby pts fs k = fs k"
  unfolding check_samplePoints_def
  by (induction pts arbitrary: fs) (simp_all add: add_nearbyReports_frame)

lemma add_nearbyReports_Nil: "add_nearbyReports [] fs = fs"
  by (simp add: add_nearbyReports_def)

lemma check_samplePoints_no_reports:
  "\<forall>pt \<in> set pts. findNearby (lng pt, lat pt) 500 = [] \<Longrightarrow>
   check_samplePoints findNearby pts fs = fs"
  unfolding check_samplePoints_def
  by (induction pts arbitrary: fs) (simp_all add: add_nearbyReports_Nil)

lemma normalize_factors_apply:
  "normalize_factors fs k = js_max (Num 0) (js_min (Num 10) (fs k))"
  by (cases k) (simp_all add: normalize_factors_def factor_keys_def)



lemma weighted_total_eq: "weighted_total fs = spec_weighted_sum fs"
proof -
  have c: "js_mul (js_lit w) v = js_mul v (js_lit w)" for w v
    by (rule js_mul_commute)
  show ?thesis
    by (simp add: weighted_total_def weights_def spec_weighted_sum_def js_add_zero_mul c)
qed

lemma normalize_initial_factors: "normalize_factors initial_factors = initial_factors"
proof
  fix k show "normalize_factors initial_factors k = initial_factors k"
    by (cases k) (simp_all add: normalize_factors_apply)
qed

lemma overall_initial_factors:
  "round_one_decimal (weighted_total initial_factors) = js_lit 6.8"
  by (simp add: weighted_total_def weights_def round_one_decimal_def fl_eval)

lemma calculateRouteSafetyScore_unfold:
  assumes "decodePolyline encoded = Some routePoints"
  shows "calculateRouteSafetyScore findNearby encoded =
     Some \<lparr>overall = round_one_decimal (spec_weighted_sum
                (normalize_factors (check_samplePoints findNearby (samplePoints routePoints) initial_factors))),
           factors = normalize_factors (check_samplePoints findNearby (samplePoints routePoints) initial_factors)\<rparr>"
  using assms
  by (simp add: calculateRouteSafetyScore_def Let_def weighted_total_eq round_one_decimal_def)


lemma score_without_reports:
  assumes "decodePolyline encoded = Some routePoints"
    and "\<forall>pt \<in> set (samplePoints routePoints). findNearby (lng pt, lat pt) 500 = []"
  shows "calculateRouteSafetyScore findNearby encoded
           = Some \<lparr>overall = js_lit 6.8, factors = initial_factors\<rparr>"
proof -
  have "check_samplePoints findNearby (samplePoints routePoints) initial_factors = initial_factors"
    using assms(2) by (rule check_samplePoints_no_reports)
  with assms(1) overall_initial_factors show ?thesis
    by (simp add: calculateRouteSafetyScore_def Let_def normalize_initial_factors
        round_one_decimal_def)
qed

lemma decodePolyline_one_point:
  "decodePolyline (js_str ''_p~iF~ps|U'') = Some [\<lparr>lat = 38.5, lng = - 120.2\<rparr>]"
  by code_simp

lemma those_map_Some:
  "\<forall>x \<in> set xs. \<exists>y. f x = Some y \<Longrightarrow>
   \<exists>ys. those (map f xs) = Some ys \<and> length ys = length xs
        \<and> (\<forall>i < length xs. f (xs ! i) = Some (ys ! i))"
proof (induction xs)
  case Nil
  then show ?case by simp
next
  case (Cons x xs)
  then obtain y where y: "f x = Some y" by auto
  from Cons obtain ys where ys: "those (map f xs) = Some ys" "length ys = length xs"
    "\<forall>i < length xs. f (xs ! i) = Some (ys ! i)" by auto
  have "\<forall>i < length (x # xs). f ((x # xs) ! i) = Some ((y # ys) ! i)"
    using y ys(3) by (auto simp: nth_Cons split: nat.splits)
  with y ys(1,2) show ?case by auto
qed

lemma Math_min_eq_Min:
  assumes "xs \<noteq> []"
  shows "Math_min xs = Some (Min (set xs))"
proof (cases xs)
  case Nil
  with assms show ?thesis by simp
next
  case (Cons a list)
  then show ?thesis
    using Min.set_eq_fold [of a list] by simp
qed

lemma determine_routeType_fastest:
  assumes "route \<in> set routes"
    and "duration_value (leg0 route) = Min (set (map (\<lambda>r. duration_value (leg0 r)) routes))"
  shows "determine_routeType routes index route score = fastest"
proof -
  from assms(1) have "map (\<lambda>r. duration_value (leg0 r)) routes \<noteq> []" by auto
  from Math_min_eq_Min [OF this] assms(2) show ?thesis
    by (simp add: determine_routeType_def Let_def)
qed

lemma insert_sorted_fastest:
  "insert_sorted (compare_routes ''fastest'') x ys = insort_key duration_seconds x ys"
  by (induction ys) (simp_all add: compare_routes_def)

lemma sort_routes_fastest: "sort_routes ''fastest'' rs = sort_key duration_seconds rs"
proof -
  have "insert_sorted (compare_routes ''fastest'') = insort_key duration_seconds"
    by (intro ext) (rule insert_sorted_fastest)
  then show ?thesis
    by (simp add: sort_routes_def Array_sort_def sort_key_def)
qed

lemma decodePolyline_reference:
  "decodePolyline (js_str ''_p~iF~ps|U_ulLnnqC_mqNvxq`@'') =
     Some [\<lparr>lat = 38.5, lng = - 120.2\<rparr>, \<lparr>lat = 40.7, lng = - 120.95\<rparr>,
           \<lparr>lat = 43.252, lng = - 126.453\<rparr>]"
  by code_simp

section \<open>The decoder on encoded values: auxiliary facts\<close>

lemma mask5: "(0x1f :: 32 word) = mask 5"
  by (simp add: mask_eq_exp_minus_1)

lemma and_0x1f_nat: "and_0x1f (Some (int n)) = of_nat (n mod 32)"
proof -
  have "(word_of_int (int n) :: 32 word) AND mask 5 = of_nat (take_bit 5 n)"
    by (simp add: of_nat_take_bit flip: take_bit_eq_mask)
  then show ?thesis
    by (simp add: and_0x1f_def mask5 take_bit_eq_mod)
qed

lemma nat_split5: "(v mod 32) OR push_bit 5 (v div 32) = (v::nat)"
proof -
  have "take_bit 5 v OR push_bit 5 (drop_bit 5 v) = v"
  proof (rule bit_eqI)
    fix n
    show "bit (take_bit 5 v OR push_bit 5 (drop_bit 5 v)) n = bit v n"
      by (cases "n < 5") (simp_all add: bit_simps)
  qed
  then show ?thesis
    by (simp add: take_bit_eq_mod drop_bit_eq_div)
qed

lemma word_split5:
  "push_bit s (of_nat (v mod 32)) OR push_bit (s + 5) (of_nat (v div 32))
     = (push_bit s (of_nat v) :: 32 word)"
proof -
  have "push_bit s (of_nat (v mod 32)) OR push_bit (s + 5) (of_nat (v div 32))
      = (push_bit s (of_nat ((v mod 32) OR push_bit 5 (v div 32))) :: 32 word)"
    by (simp add: of_nat_or_eq of_nat_push_bit push_bit_or push_bit_add ac_simps)
  then show ?thesis
    by (simp only: nat_split5)
qed


lemma uint_code_unit: "n < 65536 \<Longrightarrow> uint (of_nat n :: 16 word) = int n"
  by (simp add: unsigned_of_nat take_bit_nat_eq_self)

lemma sint_small: "n < 2 ^ 31 \<Longrightarrow> sint (of_nat n :: 32 word) = int n"
  by (simp add: signed_of_nat signed_take_bit_int_eq_self)

lemma sint_NOT: "sint (NOT (w :: 32 word)) = NOT (sint w)"
  by (metis (no_types, lifting) bit.complement_unique bit.conj_cancel_right
    bit.disj_cancel_right signed_0 signed_and_eq signed_minus_1
    signed_or_eq)

lemma zigzag_bound: "- (2 ^ 30) \<le> d \<Longrightarrow> d < 2 ^ 30 \<Longrightarrow> zigzag d < 2 ^ 31"
  unfolding zigzag_def by (simp split: if_splits) arith

lemma unzigzag_zigzag:
  assumes "- (2 ^ 30) \<le> d" "d < 2 ^ 30"
  shows "unzigzag (of_nat (zigzag d)) = d"
proof -
  let ?z = "zigzag d"
  have z: "?z < 2 ^ 31"
    using assms by (rule zigzag_bound)
  have odd_iff: "(of_nat ?z :: 32 word) AND 1 \<noteq> 0 \<longleftrightarrow> odd ?z"
  proof -
    have "(of_nat ?z :: 32 word) AND 1 = of_bool (odd (of_nat ?z :: 32 word))"
      by (simp only: and_one_eq mod_2_eq_odd)
    also have "odd (of_nat ?z :: 32 word) \<longleftrightarrow> odd ?z"
      by (simp only: even_of_nat)
    finally show ?thesis
      by (simp only: of_bool_eq_0_iff not_not)
  qed
  have half: "sint (signed_drop_bit 1 (of_nat ?z :: 32 word)) = int ?z div 2"
    by (simp add: sint_signed_drop_bit_eq sint_small [OF z] drop_bit_eq_div)
  show ?thesis
  proof (cases "d < 0")
    case True
    then have "odd ?z" and "int ?z div 2 = - d - 1"
      by (simp_all add: zigzag_def even_nat_iff)
    with odd_iff half show ?thesis
      by (simp add: unzigzag_def sint_NOT not_int_def)
  next
    case False
    then have "even ?z" and "int ?z div 2 = d"
      by (simp_all add: zigzag_def even_nat_iff)
    with odd_iff half show ?thesis
      by (simp add: unzigzag_def)
  qed
qed


lemma encode_groups_nonempty: "encode_groups v \<noteq> []"
  by (subst encode_groups.simps) simp

lemma charCodeAt_middle:
  "n < 65536 \<Longrightarrow> charCodeAt (pre @ of_nat n # rest) (length pre) = Some (int n)"
  by (simp add: charCodeAt_def uint_code_unit)

lemma read_group_encode_groups:
  assumes "s < 32" "v * 2 ^ s < 2 ^ 32"
  shows "read_group (pre @ map of_nat (encode_groups v) @ rest) (length pre) s r
           = Some (r OR push_bit s (of_nat v), length pre + length (encode_groups v))"
  using assms
proof (induction v arbitrary: pre s r rule: encode_groups.induct)
  case (1 v)
  show ?case
  proof (cases "0x20 \<le> v")
    case True
    let ?c = "0x20 + v mod 0x20 + 63"
    let ?r' = "r OR push_bit s (of_nat (v mod 32) :: 32 word)"
    have enc: "encode_groups v = ?c # encode_groups (v div 0x20)"
      using True by (subst encode_groups.simps) simp
    have char: "charCodeAt (pre @ map of_nat (encode_groups v) @ rest) (length pre)
        = Some (int ?c)"
      unfolding enc by (simp only: list.map append_Cons) (rule charCodeAt_middle, simp)
    have "32 * 2 ^ s \<le> v * (2::nat) ^ s"
      using True by (intro mult_le_mono1) simp
    moreover have "(2::nat) ^ (s + 5) = 32 * 2 ^ s"
      by (simp add: power_add)
    ultimately have "(2::nat) ^ (s + 5) < 2 ^ 32"
      using "1.prems"(2) by linarith
    then have s5: "s + 5 < 32"
      by (simp only: power_strict_increasing_iff one_less_numeral_iff semiring_norm)
    have "v div 32 * 2 ^ (s + 5) = (v div 32 * 32) * 2 ^ s"
      by (simp add: power_add)
    also have "\<dots> \<le> v * 2 ^ s"
      by (intro mult_le_mono1) simp
    finally have bound: "v div 0x20 * 2 ^ (s + 5) < 2 ^ 32"
      using "1.prems"(2) by simp
    have IH: "read_group ((pre @ [of_nat ?c]) @ map of_nat (encode_groups (v div 0x20)) @ rest)
          (length (pre @ [of_nat ?c])) (s + 5) ?r'
        = Some (?r' OR push_bit (s + 5) (of_nat (v div 0x20)),
                length (pre @ [of_nat ?c]) + length (encode_groups (v div 0x20)))"
      using True s5 bound by (rule "1.IH")
    have b: "map_option (\<lambda>c. c - 63) (Some (int ?c)) = Some (int (32 + v mod 32))"
      by simp
    have a: "and_0x1f (Some (int (32 + v mod 32))) = of_nat (v mod 32)"
      by (simp only: and_0x1f_nat) simp
    have g: "ge_0x20 (Some (int (32 + v mod 32)))"
      by (simp add: ge_0x20_def)
    have "read_group (pre @ map of_nat (encode_groups v) @ rest) (length pre) s r
        = read_group (pre @ map of_nat (encode_groups v) @ rest) (length pre + 1) (s + 5) ?r'"
      using "1.prems"(1)
      by (subst read_group.simps) (simp only: char b a g Let_def if_True mod_less)
    also have "\<dots> = Some (?r' OR push_bit (s + 5) (of_nat (v div 0x20)),
                length (pre @ [of_nat ?c]) + length (encode_groups (v div 0x20)))"
      using IH by (simp add: enc)
    also have "?r' OR push_bit (s + 5) (of_nat (v div 0x20)) = r OR push_bit s (of_nat v)"
      using word_split5 [of s v] by (simp add: or.assoc)
    finally show ?thesis
      by (simp add: enc)
  next
    case False
    then have enc: "encode_groups v = [v + 63]"
      by (subst encode_groups.simps) simp
    have char: "charCodeAt (pre @ map of_nat (encode_groups v) @ rest) (length pre)
        = Some (int (v + 63))"
      unfolding enc using False
      by (simp only: list.map append_Cons) (rule charCodeAt_middle, simp)
    have b: "map_option (\<lambda>c. c - 63) (Some (int (v + 63))) = Some (int v)"
      by simp
    have a: "and_0x1f (Some (int v)) = of_nat v"
      using False by (simp only: and_0x1f_nat) simp
    have g: "\<not> ge_0x20 (Some (int v))"
      using False by (simp add: ge_0x20_def)
    have "read_group (pre @ map of_nat (encode_groups v) @ rest) (length pre) s r
        = Some (r OR push_bit s (of_nat v), length pre + 1)"
      using "1.prems"(1)
      by (subst read_group.simps) (simp only: char b a g Let_def if_False mod_less)
    then show ?thesis
      by (simp add: enc)
  qed
qed


lemma read_group_encode_value:
  assumes "- (2 ^ 30) \<le> d" "d < 2 ^ 30"
  shows "\<exists>r. read_group (pre @ encode_value d @ rest) (length pre) 0 0
              = Some (r, length pre + length (encode_value d))
           \<and> unzigzag r = d"
proof -
  have "zigzag d * 2 ^ 0 < 2 ^ 32"
    using zigzag_bound [OF assms] by simp
  from read_group_encode_groups [OF _ this, of pre rest 0]
  have "read_group (pre @ encode_value d @ rest) (length pre) 0 0
      = Some (of_nat (zigzag d), length pre + length (encode_value d))"
    by (simp add: encode_value_def)
  with unzigzag_zigzag [OF assms] show ?thesis
    by simp
qed

lemma GeoPoint_1e5_scaled:
  assumes "GeoPoint_1e5 p"
  shows "\<bar>round (lat p * 100000)\<bar> \<le> 9000000" "\<bar>round (lng p * 100000)\<bar> \<le> 18000000"
    "\<lparr>lat = of_int (round (lat p * 100000)) / 100000,
      lng = of_int (round (lng p * 100000)) / 100000\<rparr> = p"
proof -
  from assms have la: "of_int (round (lat p * 100000)) = lat p * 100000"
    and lo: "of_int (round (lng p * 100000)) = lng p * 100000"
    and r: "- 90 \<le> lat p" "lat p \<le> 90" "- 180 \<le> lng p" "lng p \<le> 180"
    by (simp_all add: GeoPoint_1e5_def)
  from r(1,2) have "\<bar>(of_int (round (lat p * 100000)) :: real)\<bar> \<le> 9000000"
    unfolding la by simp
  then show "\<bar>round (lat p * 100000)\<bar> \<le> 9000000"
    by linarith
  from r(3,4) have "\<bar>(of_int (round (lng p * 100000)) :: real)\<bar> \<le> 18000000"
    unfolding lo by simp
  then show "\<bar>round (lng p * 100000)\<bar> \<le> 18000000"
    by linarith
  show "\<lparr>lat = of_int (round (lat p * 100000)) / 100000,
      lng = of_int (round (lng p * 100000)) / 100000\<rparr> = p"
    unfolding la lo by (cases p) simp
qed

lemma decode_loop_encode_from:
  assumes "list_all GeoPoint_1e5 ps" "\<bar>plat\<bar> \<le> 9000000" "\<bar>plng\<bar> \<le> 18000000"
  shows "decode_loop (pre @ encode_from plat plng ps) (length pre) plat plng done
           = Some (done @ ps)"
  using assms
proof (induction ps arbitrary: pre plat plng "done")
  case Nil
  show ?case
    by (subst decode_loop.simps) simp
next
  case (Cons p ps)
  let ?ilat = "round (lat p * 100000)" and ?ilng = "round (lng p * 100000)"
  let ?g1 = "encode_value (?ilat - plat)" and ?g2 = "encode_value (?ilng - plng)"
  let ?rest = "encode_from ?ilat ?ilng ps"
  let ?e = "pre @ encode_from plat plng (p # ps)"
  from Cons.prems(1) have p: "GeoPoint_1e5 p" and ps: "list_all GeoPoint_1e5 ps"
    by simp_all
  note sc = GeoPoint_1e5_scaled [OF p]
  have e1: "?e = pre @ ?g1 @ (?g2 @ ?rest)" and e2: "?e = (pre @ ?g1) @ ?g2 @ ?rest"
    and e3: "?e = (pre @ ?g1 @ ?g2) @ ?rest"
    by (simp_all add: Let_def)
  have d1: "- (2 ^ 30) \<le> ?ilat - plat" "?ilat - plat < 2 ^ 30"
    using sc(1) Cons.prems(2) by simp_all
  have d2: "- (2 ^ 30) \<le> ?ilng - plng" "?ilng - plng < 2 ^ 30"
    using sc(2) Cons.prems(3) by simp_all
  obtain r1 where r1: "read_group ?e (length pre) 0 0 = Some (r1, length (pre @ ?g1))"
    "unzigzag r1 = ?ilat - plat"
    using read_group_encode_value [OF d1, of pre "?g2 @ ?rest"] unfolding e1 by auto
  obtain r2 where r2: "read_group ?e (length (pre @ ?g1)) 0 0
       = Some (r2, length (pre @ ?g1 @ ?g2))" "unzigzag r2 = ?ilng - plng"
    using read_group_encode_value [OF d2, of "pre @ ?g1" ?rest] unfolding e2 by auto
  have "?g1 \<noteq> []"
    by (simp add: encode_value_def encode_groups_nonempty)
  then have lt: "length pre < length ?e"
    unfolding e1 by simp
  have "decode_loop ?e (length pre) plat plng done
      = decode_loop ?e (length (pre @ ?g1 @ ?g2)) ?ilat ?ilng
          (done @ [\<lparr>lat = of_int ?ilat / 100000, lng = of_int ?ilng / 100000\<rparr>])"
    using lt by (subst decode_loop.simps) (simp only: r1 r2 if_True option.case prod.case Let_def, simp)
  also have "\<dots> = decode_loop ((pre @ ?g1 @ ?g2) @ ?rest) (length (pre @ ?g1 @ ?g2)) ?ilat ?ilng
          (done @ [p])"
    unfolding sc(3) e3 ..
  also have "\<dots> = Some ((done @ [p]) @ ps)"
    using ps sc(1,2) by (rule Cons.IH)
  finally show ?case
    by simp
qed

section \<open>Claims about the decoder\<close>

text \<open>
  C10. For every input string, truncated or not, \<open>decodePolyline\<close> terminates and returns
  a list of points: every run of the inner loop returns with a strictly larger index, and
  a read at or past the end of the string (\<open>NaN\<close>) ends the inner loop at once, leaving
  the group's value as it was.
\<close>

theorem decodePolyline_terminates:
  "(\<exists>pts. decodePolyline encoded = Some pts)
   \<and> (\<exists>result' index'. read_group encoded index shift result = Some (result', index')
         \<and> index < index')
   \<and> read_group encoded (length encoded + k) shift result
       = Some (result, length encoded + k + 1)"
  using decodePolyline_returns [of encoded] read_group_returns [of encoded index shift result]
    read_group_past_end [of encoded k shift result]
  by blast

text \<open>
  C6. The reference string decodes to exactly the three points (38.5, -120.2),
  (40.7, -120.95), (43.252, -126.453), in this order.
\<close>

theorem decodePolyline_reference_example:
  "decodePolyline (js_str ''_p~iF~ps|U_ulLnnqC_mqNvxq`@'') =
     Some [\<lparr>lat = 38.5, lng = - 120.2\<rparr>, \<lparr>lat = 40.7, lng = - 120.95\<rparr>,
           \<lparr>lat = 43.252, lng = - 126.453\<rparr>]"
  by (rule decodePolyline_reference)

text \<open>
  C4 as stated fails: the one-character string \<open>_\<close> ends in the middle of a group
  (its only code unit carries the continuation bit) and the decoder returns the point
  (0, 0) for it; the decoder has no error result at all.
\<close>

theorem decodePolyline_mid_group_counterexample:
  "ends_mid_group (js_str ''_'') \<and> decodePolyline (js_str ''_'') = Some [\<lparr>lat = 0, lng = 0\<rparr>]"
proof
  show "ends_mid_group (js_str ''_'')"
    by (simp add: ends_mid_group_def js_str_def)
next
  show "decodePolyline (js_str ''_'') = Some [\<lparr>lat = 0, lng = 0\<rparr>]"
    by code_simp
qed

text \<open>
  C4, amended. For every input string that ends in the middle of a group the decoder
  returns a point sequence, with no error: the missing code unit reads as a last group
  byte with payload 0, so the result is that of the input followed by \<open>?\<close> (code 63).
\<close>

theorem decodePolyline_mid_group:
  assumes "ends_mid_group encoded"
  shows "\<exists>pts. decodePolyline encoded = Some pts
           \<and> decodePolyline (encoded @ js_str ''?'') = Some pts"
proof -
  from assms have "0 \<noteq> length encoded"
    by (simp add: ends_mid_group_def)
  from decode_loop_append_zero_group [OF assms this]
  have "decodePolyline (encoded @ [63]) = decodePolyline encoded"
    by (simp add: decodePolyline_def)
  moreover have "js_str ''?'' = [63]"
    by (simp add: js_str_def)
  ultimately show ?thesis
    using decodePolyline_returns [of encoded] by auto
qed

theorem decodePolyline_mid_group_witness:
  "ends_mid_group (js_str ''_p~iF~'')
   \<and> decodePolyline (js_str ''_p~iF~'' @ js_str ''?'') = decodePolyline (js_str ''_p~iF~'')"
proof -
  have h: "ends_mid_group (js_str ''_p~iF~'')"
    by (simp add: ends_mid_group_def js_str_def)
  from decodePolyline_mid_group [OF h] h show ?thesis
    by auto
qed

section \<open>Claims about the safety score\<close>

text \<open>
  C1 as stated fails: for the one-point route \<open>_p~iF~ps|U\<close> and a store without
  reports (so that no sample point finds any) the overall score is 6.8, not 6.85.
\<close>

theorem baseline_overall_counterexample:
  "map_option overall (calculateRouteSafetyScore no_reports (js_str ''_p~iF~ps|U''))
     = Some (js_lit 6.8)
   \<and> map_option overall (calculateRouteSafetyScore no_reports (js_str ''_p~iF~ps|U''))
       \<noteq> Some (js_lit 6.85)"
proof -
  have "\<forall>pt \<in> set (samplePoints [\<lparr>lat = 38.5, lng = - 120.2\<rparr>]).
          no_reports (lng pt, lat pt) 500 = []"
    by (simp add: no_reports_def)
  with decodePolyline_one_point
  have e: "calculateRouteSafetyScore no_reports (js_str ''_p~iF~ps|U'')
             = Some \<lparr>overall = js_lit 6.8, factors = initial_factors\<rparr>"
    by (rule score_without_reports)
  have "js_lit 6.8 \<noteq> js_lit 6.85"
    by (simp add: fl_eval)
  then show ?thesis
    unfolding e by simp
qed

text \<open>
  C1, amended. For every route whose sample points all find no nearby report,
  \<open>calculateRouteSafetyScore\<close> returns the unmodified baseline factors (lighting 7,
  policePresence 6, crimeRate 7, pedestrianTraffic 6, roadCondition 7, communityReports 8)
  and the overall score 6.8 (the weighted sum 6.75 rounded to one decimal).
\<close>

theorem baseline_score_without_reports:
  assumes "decodePolyline encoded = Some routePoints"
    and "\<forall>pt \<in> set (samplePoints routePoints). findNearby (lng pt, lat pt) 500 = []"
  shows "\<exists>sc. calculateRouteSafetyScore findNearby encoded = Some sc
           \<and> factors sc lighting = Num 7 \<and> factors sc policePresence = Num 6
           \<and> factors sc crimeRate = Num 7 \<and> factors sc pedestrianTraffic = Num 6
           \<and> factors sc roadCondition = Num 7 \<and> factors sc communityReports = Num 8
           \<and> overall sc = js_lit 6.8"
proof -
  have "calculateRouteSafetyScore findNearby encoded
          = Some \<lparr>overall = js_lit 6.8, factors = initial_factors\<rparr>"
    using assms by (rule score_without_reports)
  then show ?thesis by simp
qed

theorem baseline_score_without_reports_witness:
  "decodePolyline (js_str ''_p~iF~ps|U_ulLnnqC_mqNvxq`@'') =
     Some [\<lparr>lat = 38.5, lng = - 120.2\<rparr>, \<lparr>lat = 40.7, lng = - 120.95\<rparr>,
           \<lparr>lat = 43.252, lng = - 126.453\<rparr>]
   \<and> samplePoints [\<lparr>lat = 38.5, lng = - 120.2\<rparr>, \<lparr>lat = 40.7, lng = - 120.95\<rparr>,
                     \<lparr>lat = 43.252, lng = - 126.453\<rparr>] = [\<lparr>lat = 38.5, lng = - 120.2\<rparr>]
   \<and> reports_only_at (- 120.95, 40.7) [robbery_report] (- 120.2, 38.5) 500 = []
   \<and> map_option overall
        (calculateRouteSafetyScore (reports_only_at (- 120.95, 40.7) [robbery_report])
           (js_str ''_p~iF~ps|U_ulLnnqC_mqNvxq`@'')) = Some (js_lit 6.8)"
proof -
  have s: "samplePoints [\<lparr>lat = 38.5, lng = - 120.2\<rparr>, \<lparr>lat = 40.7, lng = - 120.95\<rparr>,
                     \<lparr>lat = 43.252, lng = - 126.453\<rparr>] = [\<lparr>lat = 38.5, lng = - 120.2\<rparr>]"
    by (simp add: samplePoints_def upt_conv_Cons)
  have r: "reports_only_at (- 120.95, 40.7) [robbery_report] (- 120.2, 38.5) 500 = []"
    by (simp add: reports_only_at_def)
  have h2: "\<forall>pt \<in> set (samplePoints [\<lparr>lat = 38.5, lng = - 120.2\<rparr>,
                \<lparr>lat = 40.7, lng = - 120.95\<rparr>, \<lparr>lat = 43.252, lng = - 126.453\<rparr>]).
         reports_only_at (- 120.95, 40.7) [robbery_report] (lng pt, lat pt) 500 = []"
    unfolding s using r by simp
  from baseline_score_without_reports
    [where findNearby = "reports_only_at (- 120.95, 40.7) [robbery_report]",
      OF decodePolyline_reference h2]
    decodePolyline_reference s r
  show ?thesis by auto
qed


text \<open>
  C3 fails on the code: for the one-point route \<open>_p~iF~ps|U\<close> and a store that
  returns, at that point, one report without a severity, the impact of the report is
  \<open>NaN\<close>, the clamp lets \<open>NaN\<close> through, and the returned communityReports factor
  and overall score are \<open>NaN\<close>, which is neither at least 0 nor at most 10.
\<close>

theorem communityReports_NaN_without_severity:
  "map_option (\<lambda>sc. (factors sc communityReports, overall sc))
     (calculateRouteSafetyScore (reports_only_at (- 120.2, 38.5) [unrated_report])
        (js_str ''_p~iF~ps|U'')) = Some (NaN, NaN)
   \<and> \<not> js_ge NaN (Num 0) \<and> \<not> js_ge (Num 10) NaN"
proof -
  have s: "samplePoints [\<lparr>lat = 38.5, lng = - 120.2\<rparr>] = [\<lparr>lat = 38.5, lng = - 120.2\<rparr>]"
    by (simp add: samplePoints_def)
  have c: "check_samplePoints (reports_only_at (- 120.2, 38.5) [unrated_report])
             [\<lparr>lat = 38.5, lng = - 120.2\<rparr>] initial_factors communityReports = NaN"
    by (simp add: check_samplePoints_def reports_only_at_def add_nearbyReports_def
        calculateSafetyImpact_def unrated_report_def)
  define fs where "fs = normalize_factors
    (check_samplePoints (reports_only_at (- 120.2, 38.5) [unrated_report])
       [\<lparr>lat = 38.5, lng = - 120.2\<rparr>] initial_factors)"
  have u: "calculateRouteSafetyScore (reports_only_at (- 120.2, 38.5) [unrated_report])
        (js_str ''_p~iF~ps|U'')
      = Some \<lparr>overall = round_one_decimal (spec_weighted_sum fs), factors = fs\<rparr>"
    unfolding fs_def using calculateRouteSafetyScore_unfold [OF decodePolyline_one_point]
    unfolding s .
  have n: "fs communityReports = NaN"
    unfolding fs_def by (simp only: normalize_factors_apply c) simp
  have w: "spec_weighted_sum fs = NaN"
    by (simp add: spec_weighted_sum_def n js_mul_NaN_right js_add_NaN_right)
  show ?thesis
    unfolding u by (simp add: n w round_one_decimal_def)
qed

text \<open>
  C9. Whatever the polyline and the reports found, the factors lighting, policePresence,
  crimeRate, pedestrianTraffic and roadCondition of the returned score are their initial
  values 7, 6, 7, 6 and 7: only communityReports is ever changed.
\<close>

theorem only_communityReports_changes:
  "\<exists>sc. calculateRouteSafetyScore findNearby encoded = Some sc
      \<and> factors sc lighting = Num 7 \<and> factors sc policePresence = Num 6
      \<and> factors sc crimeRate = Num 7 \<and> factors sc pedestrianTraffic = Num 6
      \<and> factors sc roadCondition = Num 7"
proof -
  obtain pts where "decodePolyline encoded = Some pts"
    using decodePolyline_returns by blast
  from calculateRouteSafetyScore_unfold [OF this] show ?thesis
    by (simp add: normalize_factors_apply check_samplePoints_frame)
qed

section \<open>Claims about classification and ranking\<close>

text \<open>
  C7. Every alternative whose duration is the minimum of the durations of all alternatives
  gets the route type \<open>fastest\<close>, whatever its index and score; with a tie, each of
  the tied alternatives gets it.
\<close>

theorem minimum_duration_is_fastest:
  assumes "i < length routes"
    and "duration_value (leg0 (routes ! i))
           = Min (set (map (\<lambda>r. duration_value (leg0 r)) routes))"
  shows "\<exists>processed. process_routes findNearby routes = Some processed
           \<and> length processed = length routes \<and> routeType (processed ! i) = fastest"
proof -
  let ?xs = "zip routes [0..<length routes]"
  have "\<exists>y. process_route findNearby routes x = Some y" for x
  proof -
    obtain route index where x: "x = (route, index)" by (cases x)
    obtain pts where "decodePolyline (overview_polyline route) = Some pts"
      using decodePolyline_returns by blast
    then show ?thesis
      by (simp add: x process_route_def calculateRouteSafetyScore_unfold)
  qed
  then have "\<forall>x \<in> set ?xs. \<exists>y. process_route findNearby routes x = Some y"
    by blast
  from those_map_Some [OF this] obtain processed where
    p: "those (map (process_route findNearby routes) ?xs) = Some processed"
      "length processed = length ?xs"
      "\<forall>j < length ?xs. process_route findNearby routes (?xs ! j) = Some (processed ! j)"
    by blast
  from assms(1) have xi: "?xs ! i = (routes ! i, i)" by simp
  from p(3) assms(1) xi have
    pi: "process_route findNearby routes (routes ! i, i) = Some (processed ! i)" by simp
  obtain pts where "decodePolyline (overview_polyline (routes ! i)) = Some pts"
    using decodePolyline_returns by blast
  then obtain score where
    "calculateRouteSafetyScore findNearby (overview_polyline (routes ! i)) = Some score"
    by (simp add: calculateRouteSafetyScore_unfold)
  with pi have "processed ! i =
      \<lparr>routeType = determine_routeType routes i (routes ! i) score,
       distance_meters = distance_value (leg0 (routes ! i)),
       duration_seconds = duration_value (leg0 (routes ! i)),
       safetyScore = overall score, safetyFactors = factors score,
       tags = generateRouteTags score, polyline = overview_polyline (routes ! i)\<rparr>"
    by (simp add: process_route_def)
  then have "routeType (processed ! i) = determine_routeType routes i (routes ! i) score"
    by simp
  also have "\<dots> = fastest"
    using assms by (intro determine_routeType_fastest) simp_all
  finally show ?thesis
    using p(1,2) by (simp add: process_routes_def)
qed

theorem minimum_duration_is_fastest_witness:
  "0 < length tie_routes \<and> 1 < length tie_routes
   \<and> duration_value (leg0 (tie_routes ! 0))
       = Min (set (map (\<lambda>r. duration_value (leg0 r)) tie_routes))
   \<and> duration_value (leg0 (tie_routes ! 1))
       = Min (set (map (\<lambda>r. duration_value (leg0 r)) tie_routes))
   \<and> (\<exists>processed. process_routes no_reports tie_routes = Some processed
         \<and> routeType (processed ! 0) = fastest \<and> routeType (processed ! 1) = fastest)"
proof -
  have l0: "0 < length tie_routes" and l1: "1 < length tie_routes"
    by (simp_all add: tie_routes_def)
  have m0: "duration_value (leg0 (tie_routes ! 0))
       = Min (set (map (\<lambda>r. duration_value (leg0 r)) tie_routes))"
    by (simp add: tie_routes_def)
  have m1: "duration_value (leg0 (tie_routes ! 1))
       = Min (set (map (\<lambda>r. duration_value (leg0 r)) tie_routes))"
    by (simp add: tie_routes_def)
  from minimum_duration_is_fastest [OF l0 m0, of no_reports]
    minimum_duration_is_fastest [OF l1 m1, of no_reports] l0 l1 m0 m1
  show ?thesis by auto
qed

text \<open>
  C8. With the preference \<open>fastest\<close> the routes come out in ascending order of their
  duration in seconds, they are the routes that went in, and routes of equal duration
  keep their relative order.
\<close>

theorem fastest_ranking_sorted_and_stable:
  "sorted (map duration_seconds (sort_routes ''fastest'' rs))
   \<and> mset (sort_routes ''fastest'' rs) = mset rs
   \<and> filter (\<lambda>r. duration_seconds r = d) (sort_routes ''fastest'' rs)
       = filter (\<lambda>r. duration_seconds r = d) rs"
proof (intro conjI)
  show "sorted (map duration_seconds (sort_routes ''fastest'' rs))"
    by (simp add: sort_routes_fastest)
  show "mset (sort_routes ''fastest'' rs) = mset rs"
    by (simp add: sort_routes_fastest)
  show "filter (\<lambda>r. duration_seconds r = d) (sort_routes ''fastest'' rs)
       = filter (\<lambda>r. duration_seconds r = d) rs"
    by (simp add: sort_routes_fastest sort_key_stable)
qed

text \<open>The scenario of C8: durations 600, 500, 500.\<close>

theorem fastest_ranking_scenario:
  "sort_routes ''fastest'' [scored_route 1 600, scored_route 2 500, scored_route 3 500]
     = [scored_route 2 500, scored_route 3 500, scored_route 1 600]
   \<and> filter (\<lambda>r. duration_seconds r = 500)
       (sort_routes ''fastest'' [scored_route 1 600, scored_route 2 500, scored_route 3 500])
     = [scored_route 2 500, scored_route 3 500]"
proof -
  have "sort_routes ''fastest'' [scored_route 1 600, scored_route 2 500, scored_route 3 500]
     = [scored_route 2 500, scored_route 3 500, scored_route 1 600]"
    by (simp add: sort_routes_def Array_sort_def compare_routes_def scored_route_def)
  moreover have "filter (\<lambda>r. duration_seconds r = 500)
      [scored_route 1 600, scored_route 2 500, scored_route 3 500]
     = [scored_route 2 500, scored_route 3 500]"
    by (simp add: scored_route_def)
  ultimately show ?thesis
    using fastest_ranking_sorted_and_stable
      [of "[scored_route 1 600, scored_route 2 500, scored_route 3 500]" 500]
    by simp
qed

section \<open>Claim about the round trip through the codec\<close>

text \<open>
  C5. For every finite sequence of GeoPoints whose coordinates are rounded to 1e-5 degrees,
  decoding the encoding of the sequence returns the sequence itself (each coordinate
  exactly, hence within the tolerance of 1e-5).
\<close>

theorem decode_encode_roundtrip:
  assumes "list_all GeoPoint_1e5 points"
  shows "decodePolyline (encode points) = Some points"
  using decode_loop_encode_from [OF assms, of 0 0 "[]" "[]"]
  by (simp add: decodePolyline_def encode_def)

theorem decode_encode_roundtrip_witness:
  "list_all GeoPoint_1e5 [\<lparr>lat = 38.5, lng = - 120.2\<rparr>, \<lparr>lat = 40.7, lng = - 120.95\<rparr>,
                           \<lparr>lat = 43.252, lng = - 126.453\<rparr>]
   \<and> encode [\<lparr>lat = 38.5, lng = - 120.2\<rparr>, \<lparr>lat = 40.7, lng = - 120.95\<rparr>,
              \<lparr>lat = 43.252, lng = - 126.453\<rparr>] = js_str ''_p~iF~ps|U_ulLnnqC_mqNvxq`@''
   \<and> decodePolyline (encode [\<lparr>lat = 38.5, lng = - 120.2\<rparr>, \<lparr>lat = 40.7, lng = - 120.95\<rparr>,
                              \<lparr>lat = 43.252, lng = - 126.453\<rparr>])
       = Some [\<lparr>lat = 38.5, lng = - 120.2\<rparr>, \<lparr>lat = 40.7, lng = - 120.95\<rparr>,
               \<lparr>lat = 43.252, lng = - 126.453\<rparr>]"
proof -
  have h: "list_all GeoPoint_1e5 [\<lparr>lat = 38.5, lng = - 120.2\<rparr>, \<lparr>lat = 40.7, lng = - 120.95\<rparr>,
                           \<lparr>lat = 43.252, lng = - 126.453\<rparr>]"
    by (simp add: GeoPoint_1e5_def)
  have e: "encode [\<lparr>lat = 38.5, lng = - 120.2\<rparr>, \<lparr>lat = 40.7, lng = - 120.95\<rparr>,
              \<lparr>lat = 43.252, lng = - 126.453\<rparr>] = js_str ''_p~iF~ps|U_ulLnnqC_mqNvxq`@''"
    by (simp add: encode_def encode_value_def zigzag_def encode_groups.simps js_str_def)
  from decode_encode_roundtrip [OF h] h e show ?thesis
    by simp
qed

end
